theory Spec2Isabelle
  imports Main
begin

section \<open>SimpleVector: a growable array over a raw buffer\<close>

text \<open>
  A shallow embedding of \<^verbatim>\<open>simple_vector.h\<close>. The class template \<^verbatim>\<open>SimpleVector<Type>\<close>
  owns one \<^verbatim>\<open>ArrayPtr<Type>\<close> and two \<^verbatim>\<open>size_t\<close> fields.

  \<^item> \<^verbatim>\<open>size_t\<close> is modelled as \<open>nat\<close>. The two expressions that could wrap,
    \<^verbatim>\<open>2 * capacity_\<close> and \<^verbatim>\<open>size_ + 1\<close>, do not: a block of \<open>capacity_\<close> elements was
    allocated, so \<open>capacity_\<close> is at most half the range of \<^verbatim>\<open>size_t\<close>. A failing
    allocation (\<^verbatim>\<open>std::bad_alloc\<close>) is not modelled.
  \<^item> Iterators are raw pointers into the block; a pointer is modelled by its offset from
    \<^verbatim>\<open>items_.Get()\<close>, so \<^verbatim>\<open>begin()\<close> is offset \<open>0\<close> and \<^verbatim>\<open>end()\<close> is offset \<open>size_\<close>.
  \<^item> Moving an element out of a slot leaves the slot in a moved-from state, which the
    model records (\<open>MovedFrom\<close>). \<^verbatim>\<open>Erase\<close> leaves one such slot behind the live
    elements. In \<^verbatim>\<open>Resize\<close>, \<^verbatim>\<open>PushBack(Type&&)\<close> and \<^verbatim>\<open>Insert(pos, Type&&)\<close> every
    moved-from slot is overwritten, or its block is destroyed, before the call returns, so
    the container they return is the one the copying loop gives; the copying and the
    moving overload (\<^verbatim>\<open>const Type&\<close> / \<^verbatim>\<open>Type&&\<close>) are therefore one function.
  \<^item> An access outside the allocated block is undefined behaviour in C++; the model makes
    it the result \<open>Inl BufferOverrun\<close>. An \<^verbatim>\<open>assert\<close> that fails is \<open>Inl AssertionFailed\<close>
    and the exception of \<^verbatim>\<open>At\<close> is \<open>Inl OutOfRange\<close>.
\<close>

datatype error = OutOfRange | AssertionFailed | BufferOverrun

definition and_then :: "error + 'a \<Rightarrow> ('a \<Rightarrow> error + 'b) \<Rightarrow> error + 'b" where
  "and_then r f = (case r of Inl e \<Rightarrow> Inl e | Inr x \<Rightarrow> f x)"

subsection \<open>The raw buffer\<close>

text \<open>
  Modelled from the spec: \<^verbatim>\<open>ArrayPtr<Type>\<close> (\<^verbatim>\<open>array_ptr.h\<close> is included by the source
  but is not part of it). The spec describes it as a block of exactly the requested number
  of element slots, with unchecked indexed access and a swap, and with slots of
  unspecified state until they are written. A block is the list of its slots; a slot that
  was allocated and never assigned is \<open>Uninit\<close>, a slot that holds the value \<open>x\<close> is
  \<open>Val x\<close>, and a slot whose value \<open>x\<close> was moved out with \<^verbatim>\<open>std::move\<close> is \<open>MovedFrom x\<close>:
  it still holds \<open>x\<close> for a scalar element type and is valid but unspecified for a class
  type.
\<close>

datatype 'a slot = Uninit | Val 'a | MovedFrom 'a

fun moved_from :: "'a slot \<Rightarrow> 'a slot" where
  "moved_from Uninit = Uninit"
| "moved_from (Val x) = MovedFrom x"
| "moved_from (MovedFrom x) = MovedFrom x"

type_synonym 'a ArrayPtr = "'a slot list"

definition ArrayPtr_new :: "nat \<Rightarrow> 'a ArrayPtr" where
  "ArrayPtr_new n = replicate n Uninit"

definition load :: "'a ArrayPtr \<Rightarrow> nat \<Rightarrow> error + 'a slot" where
  "load a i = (if i < length a then Inr (a ! i) else Inl BufferOverrun)"

definition store :: "'a ArrayPtr \<Rightarrow> nat \<Rightarrow> 'a slot \<Rightarrow> error + 'a ArrayPtr" where
  "store a i x = (if i < length a then Inr (a[i := x]) else Inl BufferOverrun)"

subsection \<open>The standard algorithms the class calls\<close>

text \<open>
  \<^verbatim>\<open>std::copy(first, last, d_first)\<close> and \<^verbatim>\<open>std::move(first, last, d_first)\<close>, from the
  block \<open>src\<close> into a different block \<open>dst\<close>:
  \<^verbatim>\<open>while (first != last) *d_first++ = *first++;\<close>
  Every call of the class has \<open>first \<le> last'\<close>. The loop of \<^verbatim>\<open>Reserve\<close>,
  \<^verbatim>\<open>for (i = 0; i < size_; ++i) tmp_items[i] = items_[i];\<close>, is this loop too. The result
  is the destination block. The source block is left as it was by \<^verbatim>\<open>std::copy\<close>, and with
  moved-from slots by \<^verbatim>\<open>std::move\<close>; every caller that moves destroys the source block
  before it returns.
\<close>

function std_copy ::
  "'a ArrayPtr \<Rightarrow> nat \<Rightarrow> nat \<Rightarrow> 'a ArrayPtr \<Rightarrow> nat \<Rightarrow> error + 'a ArrayPtr" where
  "std_copy src first last' dst d_first =
     (if first < last'
      then and_then (load src first) (\<lambda>x.
           and_then (store dst d_first x) (\<lambda>dst'.
           std_copy src (Suc first) last' dst' (Suc d_first)))
      else Inr dst)"
  by pat_completeness auto
termination
  by (relation "measure (\<lambda>(src, first, last', dst, d_first). last' - first)") auto

text \<open>
  \<^verbatim>\<open>std::copy_backward(first, last, d_last)\<close> and \<^verbatim>\<open>std::move_backward\<close>, from the block
  \<open>src\<close> into a different block \<open>dst\<close>:
  \<^verbatim>\<open>while (first != last) *(--d_last) = *(--last);\<close>
  Decrementing a pointer that is at the start of its block leaves the block. As above, the
  result is the destination block and the source block of a move is destroyed by the
  caller.
\<close>

function std_copy_backward ::
  "'a ArrayPtr \<Rightarrow> nat \<Rightarrow> nat \<Rightarrow> 'a ArrayPtr \<Rightarrow> nat \<Rightarrow> error + 'a ArrayPtr" where
  "std_copy_backward src first last' dst d_last =
     (if first < last'
      then (if d_last = 0 then Inl BufferOverrun
            else and_then (load src (last' - 1)) (\<lambda>x.
                 and_then (store dst (d_last - 1) x) (\<lambda>dst'.
                 std_copy_backward src first (last' - 1) dst' (d_last - 1))))
      else Inr dst)"
  by pat_completeness auto
termination
  by (relation "measure (\<lambda>(src, first, last', dst, d_last). last' - first)") auto

text \<open>
  \<^verbatim>\<open>std::copy_backward\<close> and \<^verbatim>\<open>std::move_backward\<close> when source and destination are
  ranges of one block, as in the in-place branch of \<^verbatim>\<open>Insert\<close>: every read sees the
  writes made before it. There the destination is one slot behind the source, so each
  slot that \<^verbatim>\<open>std::move_backward\<close> leaves moved-from is overwritten by the next step, and
  the last of them, at \<open>pos\<close>, by the assignment of the inserted value.
\<close>

function std_copy_backward_within ::
  "'a ArrayPtr \<Rightarrow> nat \<Rightarrow> nat \<Rightarrow> nat \<Rightarrow> error + 'a ArrayPtr" where
  "std_copy_backward_within buf first last' d_last =
     (if first < last'
      then (if d_last = 0 then Inl BufferOverrun
            else and_then (load buf (last' - 1)) (\<lambda>x.
                 and_then (store buf (d_last - 1) x) (\<lambda>buf'.
                 std_copy_backward_within buf' first (last' - 1) (d_last - 1))))
      else Inr buf)"
  by pat_completeness auto
termination
  by (relation "measure (\<lambda>(buf, first, last', d_last). last' - first)") auto

text \<open>
  \<^verbatim>\<open>std::move(first, last, d_first)\<close> inside one block, as in \<^verbatim>\<open>Erase\<close>:
  \<^verbatim>\<open>while (first != last) *d_first++ = std::move(*first++);\<close>
  Each step writes the destination slot and leaves the source slot moved-from.
\<close>

function std_move_within ::
  "'a ArrayPtr \<Rightarrow> nat \<Rightarrow> nat \<Rightarrow> nat \<Rightarrow> error + 'a ArrayPtr" where
  "std_move_within buf first last' d_first =
     (if first < last'
      then and_then (load buf first) (\<lambda>x.
           and_then (store buf d_first x) (\<lambda>buf1.
           and_then (store buf1 first (moved_from x)) (\<lambda>buf2.
           std_move_within buf2 (Suc first) last' (Suc d_first))))
      else Inr buf)"
  by pat_completeness auto
termination
  by (relation "measure (\<lambda>(buf, first, last', d_first). last' - first)") auto

text \<open>
  \<^verbatim>\<open>std::fill(first, last, value)\<close>, \<^verbatim>\<open>std::generate(first, last, [] { return Type(); })\<close>
  and the loops of \<^verbatim>\<open>Resize\<close>,
  \<^verbatim>\<open>for (auto it = first; it != last; ++it) *it = std::move(Type{});\<close>
\<close>

function std_fill :: "'a ArrayPtr \<Rightarrow> nat \<Rightarrow> nat \<Rightarrow> 'a slot \<Rightarrow> error + 'a ArrayPtr" where
  "std_fill buf first last' x =
     (if first < last'
      then and_then (store buf first x) (\<lambda>buf'. std_fill buf' (Suc first) last' x)
      else Inr buf)"
  by pat_completeness auto
termination
  by (relation "measure (\<lambda>(buf, first, last', x). last' - first)") auto

declare std_copy.simps [simp del]
declare std_copy_backward.simps [simp del]
declare std_copy_backward_within.simps [simp del]
declare std_move_within.simps [simp del]
declare std_fill.simps [simp del]

subsection \<open>The capacity hint\<close>

datatype ReserveProxyObj = ReserveProxyObj nat

fun ReserveCapasity :: "ReserveProxyObj \<Rightarrow> nat" where
  "ReserveCapasity (ReserveProxyObj capacity_to_reserve) = capacity_to_reserve"

text \<open>The free function \<^verbatim>\<open>Reserve(size_t)\<close>, which only builds the hint.\<close>

definition Reserve_hint :: "nat \<Rightarrow> ReserveProxyObj" where
  "Reserve_hint capacity_to_reserve = ReserveProxyObj capacity_to_reserve"

subsection \<open>The container\<close>

text \<open>
  The fields \<^verbatim>\<open>items_\<close>, \<^verbatim>\<open>size_\<close> and \<^verbatim>\<open>capacity_\<close>, here \<open>items\<close>, \<open>vsize\<close> and
  \<open>vcapacity\<close> (a name cannot end in an underscore, and \<open>size\<close> is taken).
\<close>

record 'a SimpleVector =
  items :: "'a ArrayPtr"
  vsize :: nat
  vcapacity :: nat

definition GetSize :: "'a SimpleVector \<Rightarrow> nat" where
  "GetSize v = vsize v"

definition GetCapacity :: "'a SimpleVector \<Rightarrow> nat" where
  "GetCapacity v = vcapacity v"

definition IsEmpty :: "'a SimpleVector \<Rightarrow> bool" where
  "IsEmpty v = (vsize v = 0)"

text \<open>The live elements: the slots at the offsets from \<^verbatim>\<open>begin()\<close> to \<^verbatim>\<open>end()\<close>.\<close>

definition elements :: "'a SimpleVector \<Rightarrow> 'a slot list" where
  "elements v = take (vsize v) (items v)"

subsubsection \<open>Constructors\<close>

text \<open>\<^verbatim>\<open>SimpleVector() noexcept = default\<close>: a null \<^verbatim>\<open>ArrayPtr\<close> and the member initialisers.\<close>

definition SimpleVector_default :: "'a SimpleVector" where
  "SimpleVector_default = \<lparr>items = ArrayPtr_new 0, vsize = 0, vcapacity = 0\<rparr>"

text \<open>\<^verbatim>\<open>explicit SimpleVector(size_t size)\<close>; \<open>dflt\<close> is the value of \<^verbatim>\<open>Type()\<close>.\<close>

definition SimpleVector_sized :: "'a \<Rightarrow> nat \<Rightarrow> error + 'a SimpleVector" where
  "SimpleVector_sized dflt n =
     and_then (std_fill (ArrayPtr_new n) 0 n (Val dflt)) (\<lambda>b.
     Inr \<lparr>items = b, vsize = n, vcapacity = n\<rparr>)"

text \<open>\<^verbatim>\<open>SimpleVector(size_t size, const Type& value)\<close>\<close>

definition SimpleVector_filled :: "nat \<Rightarrow> 'a \<Rightarrow> error + 'a SimpleVector" where
  "SimpleVector_filled n val =
     and_then (std_fill (ArrayPtr_new n) 0 n (Val val)) (\<lambda>b.
     Inr \<lparr>items = b, vsize = n, vcapacity = n\<rparr>)"

text \<open>\<^verbatim>\<open>SimpleVector(std::initializer_list<Type> init)\<close>\<close>

definition SimpleVector_init :: "'a list \<Rightarrow> error + 'a SimpleVector" where
  "SimpleVector_init init =
     and_then (std_copy (map Val init) 0 (length init) (ArrayPtr_new (length init)) 0) (\<lambda>b.
     Inr \<lparr>items = b, vsize = length init, vcapacity = length init\<rparr>)"

text \<open>
  \<^verbatim>\<open>SimpleVector(const SimpleVector& other) : items_(other.GetSize())\<close>: the block has
  \<^verbatim>\<open>other.GetSize()\<close> slots, and \<^verbatim>\<open>capacity_\<close> is set to \<^verbatim>\<open>other.GetCapacity()\<close>.
\<close>

definition SimpleVector_copy :: "'a SimpleVector \<Rightarrow> error + 'a SimpleVector" where
  "SimpleVector_copy other =
     and_then (std_copy (items other) 0 (vsize other) (ArrayPtr_new (GetSize other)) 0) (\<lambda>b.
     Inr \<lparr>items = b, vsize = GetSize other, vcapacity = GetCapacity other\<rparr>)"

text \<open>
  \<^verbatim>\<open>SimpleVector(SimpleVector&& other)\<close>: the result is the pair of the constructed
  container and the source as it is left.

  Modelled from the spec: the move assignment of \<^verbatim>\<open>ArrayPtr\<close> (in \<^verbatim>\<open>array_ptr.h\<close>),
  used by \<^verbatim>\<open>items_ = std::move(other.items_)\<close>. It hands the block over to the
  destination, which is null here, and leaves the source without a block.
\<close>

definition SimpleVector_move :: "'a SimpleVector \<Rightarrow> 'a SimpleVector \<times> 'a SimpleVector" where
  "SimpleVector_move other =
     (\<lparr>items = items other, vsize = vsize other, vcapacity = vcapacity other\<rparr>,
      other\<lparr>items := ArrayPtr_new 0, vsize := 0, vcapacity := 0\<rparr>)"

subsubsection \<open>Access\<close>

text \<open>
  \<^verbatim>\<open>operator[]\<close>: \<^verbatim>\<open>assert(index < size_); return items_[index];\<close>
\<close>

definition subscript :: "'a SimpleVector \<Rightarrow> nat \<Rightarrow> error + 'a slot" where
  "subscript v index =
     (if \<not> index < vsize v then Inl AssertionFailed else load (items v) index)"

text \<open>
  \<^verbatim>\<open>At\<close>: throws \<^verbatim>\<open>std::out_of_range\<close> if \<^verbatim>\<open>index >= GetSize()\<close>, else returns
  \<^verbatim>\<open>items_[index]\<close>. The result is paired with the container as the call leaves it.
\<close>

definition At :: "'a SimpleVector \<Rightarrow> nat \<Rightarrow> (error + 'a slot) \<times> 'a SimpleVector" where
  "At v index =
     (if index \<ge> GetSize v then (Inl OutOfRange, v) else (load (items v) index, v))"

subsubsection \<open>Size and capacity\<close>

definition Clear :: "'a SimpleVector \<Rightarrow> 'a SimpleVector" where
  "Clear v = v\<lparr>vsize := 0\<rparr>"

text \<open>
  \<^verbatim>\<open>Resize(new_size)\<close>; \<open>dflt\<close> is the value of \<^verbatim>\<open>Type{}\<close>. Its \<^verbatim>\<open>std::move\<close> into the
  new block leaves moved-from slots only in the old block, which is destroyed.
\<close>

definition Resize :: "'a \<Rightarrow> nat \<Rightarrow> 'a SimpleVector \<Rightarrow> error + 'a SimpleVector" where
  "Resize dflt new_size v =
     (if new_size = vsize v then Inr v
      else
        and_then (if new_size < vsize v
                  then std_fill (items v) new_size (vsize v) (Val dflt)
                  else Inr (items v)) (\<lambda>items1.
        and_then (if new_size > vcapacity v
                  then (let new_capacity = max new_size (2 * vcapacity v) in
                        and_then (std_copy items1 0 (vsize v) (ArrayPtr_new new_capacity) 0)
                          (\<lambda>arr_ptr.
                        and_then (std_fill arr_ptr (vsize v) new_size (Val dflt)) (\<lambda>arr_ptr'.
                        Inr (arr_ptr', new_capacity))))
                  else Inr (items1, vcapacity v)) (\<lambda>(items2, capacity2).
        Inr \<lparr>items = items2, vsize = new_size, vcapacity = capacity2\<rparr>)))"

text \<open>The member function \<^verbatim>\<open>Reserve(new_capacity)\<close>.\<close>

definition Reserve :: "nat \<Rightarrow> 'a SimpleVector \<Rightarrow> error + 'a SimpleVector" where
  "Reserve new_capacity v =
     (if new_capacity \<le> vcapacity v then Inr v
      else
        and_then (std_copy (items v) 0 (vsize v) (ArrayPtr_new new_capacity) 0) (\<lambda>tmp_items.
        Inr (v\<lparr>items := tmp_items, vcapacity := new_capacity\<rparr>)))"

text \<open>
  \<^verbatim>\<open>SimpleVector(ReserveProxyObj capacity_to_reserve)\<close>: the members are default
  initialised, then the body calls \<^verbatim>\<open>Reserve(capacity_to_reserve.ReserveCapasity())\<close>.
  Inside the class the unqualified name \<^verbatim>\<open>Reserve\<close> is found in class scope first, so
  the call is the member function on the object under construction.
\<close>

definition SimpleVector_reserved :: "ReserveProxyObj \<Rightarrow> error + 'a SimpleVector" where
  "SimpleVector_reserved capacity_to_reserve =
     Reserve (ReserveCapasity capacity_to_reserve) SimpleVector_default"

subsubsection \<open>Adding and removing elements\<close>

text \<open>
  \<^verbatim>\<open>PushBack\<close>. \<open>PushBack_allocates\<close> is the test of its \<^verbatim>\<open>else\<close> branch, the only place
  where \<^verbatim>\<open>PushBack\<close> constructs a new \<^verbatim>\<open>ArrayPtr\<close>.
\<close>

definition PushBack_allocates :: "'a SimpleVector \<Rightarrow> bool" where
  "PushBack_allocates v = (\<not> vsize v < vcapacity v)"

definition PushBack :: "'a \<Rightarrow> 'a SimpleVector \<Rightarrow> error + 'a SimpleVector" where
  "PushBack item v =
     (if vsize v < vcapacity v
      then and_then (store (items v) (vsize v) (Val item)) (\<lambda>items'.
           Inr (v\<lparr>items := items', vsize := vsize v + 1\<rparr>))
      else (let new_capacity = max 1 (2 * vcapacity v) in
            and_then (std_copy (items v) 0 (vsize v) (ArrayPtr_new new_capacity) 0) (\<lambda>arr_ptr.
            and_then (store arr_ptr (vsize v) (Val item)) (\<lambda>arr_ptr'.
            Inr \<lparr>items = arr_ptr', vsize = vsize v + 1, vcapacity = new_capacity\<rparr>))))"

text \<open>
  \<^verbatim>\<open>Insert(pos, value)\<close>, with \<open>pos\<close> the offset \<^verbatim>\<open>pos_element\<close> of the iterator. The
  conjunct \<^verbatim>\<open>pos >= cbegin()\<close> of the assertion holds of every offset. The result is the
  container and the returned iterator.
\<close>

definition Insert :: "nat \<Rightarrow> 'a \<Rightarrow> 'a SimpleVector \<Rightarrow> error + ('a SimpleVector \<times> nat)" where
  "Insert pos val v =
     (if \<not> pos \<le> vsize v then Inl AssertionFailed
      else if vsize v < vcapacity v
      then and_then (std_copy_backward_within (items v) pos (vsize v) (vsize v + 1)) (\<lambda>items1.
           and_then (store items1 pos (Val val)) (\<lambda>items2.
           Inr (v\<lparr>items := items2, vsize := vsize v + 1\<rparr>, pos)))
      else (let new_capacity = max 1 (2 * vcapacity v) in
            and_then (std_copy (items v) 0 pos (ArrayPtr_new new_capacity) 0) (\<lambda>arr1.
            and_then (std_copy_backward (items v) pos (vsize v) arr1 (vsize v + 1)) (\<lambda>arr2.
            and_then (store arr2 pos (Val val)) (\<lambda>arr3.
            Inr (\<lparr>items = arr3, vsize = vsize v + 1, vcapacity = new_capacity\<rparr>, pos))))))"

text \<open>
  \<^verbatim>\<open>Erase(pos)\<close>, with \<open>pos\<close> the offset of the iterator:
  \<^verbatim>\<open>std::move(++no_const_pos, end(), &items_[pos_element]); --size_;\<close>
\<close>

definition Erase :: "nat \<Rightarrow> 'a SimpleVector \<Rightarrow> error + ('a SimpleVector \<times> nat)" where
  "Erase pos v =
     (if \<not> pos < vsize v then Inl AssertionFailed
      else and_then (std_move_within (items v) (pos + 1) (vsize v) pos) (\<lambda>items'.
           Inr (v\<lparr>items := items', vsize := vsize v - 1\<rparr>, pos)))"

definition PopBack :: "'a SimpleVector \<Rightarrow> error + 'a SimpleVector" where
  "PopBack v =
     (if IsEmpty v then Inl AssertionFailed
      else and_then (Erase (vsize v - 1) v) (\<lambda>(v', it). Inr v'))"

text \<open>
  A caller that pushes the values of a list one after the other, as in
  \<^verbatim>\<open>for (const Type& x : xs) v.PushBack(x);\<close>
\<close>

fun PushBack_all :: "'a list \<Rightarrow> 'a SimpleVector \<Rightarrow> error + 'a SimpleVector" where
  "PushBack_all [] v = Inr v"
| "PushBack_all (x # xs) v = and_then (PushBack x v) (PushBack_all xs)"

subsubsection \<open>Swap and assignment\<close>

text \<open>\<^verbatim>\<open>swap(other)\<close>: the pair is \<^verbatim>\<open>*this\<close> and \<^verbatim>\<open>other\<close>, before and after.\<close>

definition swap_v :: "'a SimpleVector \<times> 'a SimpleVector \<Rightarrow> 'a SimpleVector \<times> 'a SimpleVector" where
  "swap_v p =
     (case p of (this, other) \<Rightarrow>
        (this\<lparr>items := items other, vsize := vsize other, vcapacity := vcapacity other\<rparr>,
         other\<lparr>items := items this, vsize := vsize this, vcapacity := vcapacity this\<rparr>))"

text \<open>
  \<^verbatim>\<open>operator=(const SimpleVector& rhs)\<close> compares the addresses of the two objects, so it
  is modelled over a store of containers: \<open>this\<close> and \<open>rhs\<close> are addresses, and the
  temporary \<^verbatim>\<open>tmp\<close> is destroyed at the end of the block.
\<close>

type_synonym 'a objects = "nat \<Rightarrow> 'a SimpleVector"

definition assign :: "nat \<Rightarrow> nat \<Rightarrow> 'a objects \<Rightarrow> error + 'a objects" where
  "assign this rhs h =
     (if this \<noteq> rhs
      then and_then (SimpleVector_copy (h rhs)) (\<lambda>tmp.
           Inr (h(this := fst (swap_v (h this, tmp)))))
      else Inr h)"

subsection \<open>The invariant of the data model\<close>

text \<open>
  \<open>buffer_inv\<close>: the recorded capacity is the number of slots of the owned block.
  \<open>wf\<close>: in addition the size is at most the capacity.
\<close>

definition buffer_inv :: "'a SimpleVector \<Rightarrow> bool" where
  "buffer_inv v = (vcapacity v = length (items v))"

definition wf :: "'a SimpleVector \<Rightarrow> bool" where
  "wf v = (vsize v \<le> vcapacity v \<and> buffer_inv v)"

section \<open>Properties\<close>

subsection \<open>The buffer primitives and the loops\<close>

text \<open>
  Each loop succeeds when its ranges lie inside the blocks, leaves the length of the
  destination as it was, and its result is described slot by slot.
\<close>

lemma and_then_Inr [simp]: "and_then (Inr x) f = f x"
  by (simp add: and_then_def)

lemma and_then_Inl [simp]: "and_then (Inl e) f = Inl e"
  by (simp add: and_then_def)

lemma load_ok [simp]: "i < length a \<Longrightarrow> load a i = Inr (a ! i)"
  by (simp add: load_def)

lemma store_ok [simp]: "i < length a \<Longrightarrow> store a i x = Inr (a[i := x])"
  by (simp add: store_def)

lemma length_ArrayPtr_new [simp]: "length (ArrayPtr_new n) = n"
  by (simp add: ArrayPtr_new_def)

lemma std_copy_ok:
  "last' \<le> length src \<Longrightarrow> d + (last' - first) \<le> length dst \<Longrightarrow>
   \<exists>r. std_copy src first last' dst d = Inr r \<and> length r = length dst \<and>
       (\<forall>i<length dst. r ! i =
          (if d \<le> i \<and> i < d + (last' - first) then src ! (first + (i - d)) else dst ! i))"
proof (induction src first last' dst d rule: std_copy.induct)
  case (1 src first last' dst d)
  show ?case
  proof (cases "first < last'")
    case False
    then show ?thesis by (auto simp add: std_copy.simps)
  next
    case True
    let ?dst = "dst[d := src ! first]"
    from True 1(2,3) have lt: "first < length src" "d < length dst" by auto
    have "\<exists>r. std_copy src (Suc first) last' ?dst (Suc d) = Inr r \<and> length r = length ?dst \<and>
       (\<forall>i<length ?dst. r ! i =
          (if Suc d \<le> i \<and> i < Suc d + (last' - Suc first) then src ! (Suc first + (i - Suc d)) else ?dst ! i))"
      using True lt 1(2,3) by (intro 1(1)) auto
    then obtain r where r: "std_copy src (Suc first) last' ?dst (Suc d) = Inr r" "length r = length dst"
      and nth: "\<And>i. i < length dst \<Longrightarrow> r ! i =
          (if Suc d \<le> i \<and> i < Suc d + (last' - Suc first) then src ! (Suc first + (i - Suc d)) else ?dst ! i)"
      by auto
    have "std_copy src first last' dst d = Inr r"
      using True lt r by (subst std_copy.simps) simp
    moreover have "\<forall>i<length dst. r ! i =
          (if d \<le> i \<and> i < d + (last' - first) then src ! (first + (i - d)) else dst ! i)"
    proof (intro allI impI)
      fix i assume i: "i < length dst"
      show "r ! i = (if d \<le> i \<and> i < d + (last' - first) then src ! (first + (i - d)) else dst ! i)"
      proof -
        have eq: "Suc d + (last' - Suc first) = d + (last' - first)"
          using \<open>first < last'\<close> by arith
        consider "i < d" | "i = d" | "d < i" "i < d + (last' - first)"
          | "d + (last' - first) \<le> i" by linarith
        then show ?thesis
        proof cases
          case 1
          then show ?thesis using nth[OF i] by simp
        next
          case 2
          have "d < d + (last' - first)" using \<open>first < last'\<close> by arith
          then show ?thesis using nth[OF i] i 2 by (simp del: add_diff_assoc)
        next
          case 3
          have idx: "Suc first + (i - Suc d) = first + (i - d)" using 3 by arith
          have "r ! i = src ! (Suc first + (i - Suc d))"
            using nth[OF i] 3 unfolding eq by (simp del: add_diff_assoc add_Suc)
          then show ?thesis using 3 unfolding idx by (simp del: add_diff_assoc)
        next
          case 4
          have "d < d + (last' - first)" using \<open>first < last'\<close> by arith
          then have "i \<noteq> d" using 4 by arith
          then show ?thesis using nth[OF i] 4 unfolding eq by (simp del: add_diff_assoc)
        qed
      qed
    qed
    ultimately show ?thesis using r by blast
  qed
qed


lemma std_fill_ok:
  "last' \<le> length buf \<Longrightarrow>
   \<exists>r. std_fill buf first last' x = Inr r \<and> length r = length buf \<and>
       (\<forall>i<length buf. r ! i = (if first \<le> i \<and> i < last' then x else buf ! i))"
proof (induction buf first last' x rule: std_fill.induct)
  case (1 buf first last' x)
  show ?case
  proof (cases "first < last'")
    case False
    then show ?thesis by (auto simp add: std_fill.simps)
  next
    case True
    let ?buf = "buf[first := x]"
    from True 1(2) have lt: "first < length buf" by simp
    have "\<exists>r. std_fill ?buf (Suc first) last' x = Inr r \<and> length r = length ?buf \<and>
       (\<forall>i<length ?buf. r ! i = (if Suc first \<le> i \<and> i < last' then x else ?buf ! i))"
      using True lt 1(2) by (intro 1(1)) auto
    then obtain r where r: "std_fill ?buf (Suc first) last' x = Inr r" "length r = length buf"
      and nth: "\<And>i. i < length buf \<Longrightarrow>
          r ! i = (if Suc first \<le> i \<and> i < last' then x else ?buf ! i)"
      by auto
    have "std_fill buf first last' x = Inr r"
      using True lt r by (subst std_fill.simps) simp
    moreover have "\<forall>i<length buf. r ! i = (if first \<le> i \<and> i < last' then x else buf ! i)"
    proof (intro allI impI)
      fix i assume i: "i < length buf"
      show "r ! i = (if first \<le> i \<and> i < last' then x else buf ! i)"
        using nth[OF i] i True by (cases "i = first") auto
    qed
    ultimately show ?thesis using r by blast
  qed
qed

lemma std_copy_backward_ok:
  "first \<le> last' \<Longrightarrow> last' \<le> length src \<Longrightarrow> last' - first \<le> d_last \<Longrightarrow>
   d_last \<le> length dst \<Longrightarrow>
   \<exists>r. std_copy_backward src first last' dst d_last = Inr r \<and> length r = length dst \<and>
       (\<forall>i<length dst. r ! i =
          (if d_last - (last' - first) \<le> i \<and> i < d_last
           then src ! (last' - (d_last - i)) else dst ! i))"
proof (induction src first last' dst d_last rule: std_copy_backward.induct)
  case (1 src first last' dst d_last)
  show ?case
  proof (cases "first < last'")
    case False
    then show ?thesis using 1(2) by (auto simp add: std_copy_backward.simps)
  next
    case True
    let ?dst = "dst[d_last - 1 := src ! (last' - 1)]"
    from True 1(2-5) have lt: "last' - 1 < length src" "d_last - 1 < length dst" "d_last \<noteq> 0"
      by auto
    have "\<exists>r. std_copy_backward src first (last' - 1) ?dst (d_last - 1) = Inr r \<and>
       length r = length ?dst \<and>
       (\<forall>i<length ?dst. r ! i =
          (if d_last - 1 - (last' - 1 - first) \<le> i \<and> i < d_last - 1
           then src ! (last' - 1 - (d_last - 1 - i)) else ?dst ! i))"
      using True lt 1(2-5) by (intro 1(1)) auto
    then obtain r where
      r: "std_copy_backward src first (last' - 1) ?dst (d_last - 1) = Inr r" "length r = length dst"
      and nth: "\<And>i. i < length dst \<Longrightarrow> r ! i =
          (if d_last - 1 - (last' - 1 - first) \<le> i \<and> i < d_last - 1
           then src ! (last' - 1 - (d_last - 1 - i)) else ?dst ! i)"
      by auto
    have "std_copy_backward src first last' dst d_last = Inr r"
      using True lt r by (subst std_copy_backward.simps) simp
    moreover have "\<forall>i<length dst. r ! i =
          (if d_last - (last' - first) \<le> i \<and> i < d_last
           then src ! (last' - (d_last - i)) else dst ! i)"
    proof (intro allI impI)
      fix i assume i: "i < length dst"
      have eq: "d_last - 1 - (last' - 1 - first) = d_last - (last' - first)"
        using True 1(4) by arith
      consider "i < d_last - (last' - first)" | "d_last - (last' - first) \<le> i" "i < d_last - 1"
        | "i = d_last - 1" | "d_last \<le> i" using lt by linarith
      then show "r ! i = (if d_last - (last' - first) \<le> i \<and> i < d_last
           then src ! (last' - (d_last - i)) else dst ! i)"
      proof cases
        case 1
        have ne: "d_last - 1 \<noteq> i" using 1 True by arith
        have c: "\<not> (d_last - 1 - (last' - 1 - first) \<le> i \<and> i < d_last - 1)"
          and g: "\<not> (d_last - (last' - first) \<le> i \<and> i < d_last)" using 1 eq by arith+
        have "r ! i = ?dst ! i" using nth[OF i] by (simp only: if_not_P[OF c])
        then have "r ! i = dst ! i" by (simp only: nth_list_update_neq[OF ne])
        then show ?thesis by (simp only: if_not_P[OF g])
      next
        case 2
        have idx: "last' - 1 - (d_last - 1 - i) = last' - (d_last - i)" using 2 by arith
        have c: "d_last - 1 - (last' - 1 - first) \<le> i \<and> i < d_last - 1"
          and g: "d_last - (last' - first) \<le> i \<and> i < d_last" using 2 eq by arith+
        have "r ! i = src ! (last' - 1 - (d_last - 1 - i))"
          using nth[OF i] by (simp only: if_P[OF c])
        then show ?thesis unfolding idx by (simp only: if_P[OF g])
      next
        case 3
        have g: "d_last - (last' - first) \<le> i \<and> i < d_last"
          and idx: "last' - (d_last - i) = last' - 1"
          and c: "\<not> (d_last - 1 - (last' - 1 - first) \<le> i \<and> i < d_last - 1)"
          using 3 True lt by arith+
        have "r ! i = ?dst ! i" using nth[OF i] by (simp only: if_not_P[OF c])
        then have "r ! i = src ! (last' - 1)" unfolding 3 by (simp only: nth_list_update_eq[OF lt(2)])
        then show ?thesis unfolding idx by (simp only: if_P[OF g])
      next
        case 4
        have ne: "d_last - 1 \<noteq> i" using 4 lt by arith
        have c: "\<not> (d_last - 1 - (last' - 1 - first) \<le> i \<and> i < d_last - 1)"
          and g: "\<not> (d_last - (last' - first) \<le> i \<and> i < d_last)" using 4 by arith+
        have "r ! i = ?dst ! i" using nth[OF i] by (simp only: if_not_P[OF c])
        then have "r ! i = dst ! i" by (simp only: nth_list_update_neq[OF ne])
        then show ?thesis by (simp only: if_not_P[OF g])
      qed
    qed
    ultimately show ?thesis using r by blast
  qed
qed


lemma std_copy_backward_within_ok:
  "first \<le> last' \<Longrightarrow> last' \<le> d_last \<Longrightarrow> d_last \<le> length buf \<Longrightarrow>
   \<exists>r. std_copy_backward_within buf first last' d_last = Inr r \<and> length r = length buf \<and>
       (\<forall>i<length buf. r ! i =
          (if d_last - (last' - first) \<le> i \<and> i < d_last
           then buf ! (last' - (d_last - i)) else buf ! i))"
proof (induction buf first last' d_last rule: std_copy_backward_within.induct)
  case (1 buf first last' d_last)
  show ?case
  proof (cases "first < last'")
    case False
    then show ?thesis using 1(2) by (auto simp add: std_copy_backward_within.simps)
  next
    case True
    let ?buf = "buf[d_last - 1 := buf ! (last' - 1)]"
    from True 1(2-4) have lt: "last' - 1 < length buf" "d_last - 1 < length buf" "d_last \<noteq> 0"
      by auto
    have "\<exists>r. std_copy_backward_within ?buf first (last' - 1) (d_last - 1) = Inr r \<and>
       length r = length ?buf \<and>
       (\<forall>i<length ?buf. r ! i =
          (if d_last - 1 - (last' - 1 - first) \<le> i \<and> i < d_last - 1
           then ?buf ! (last' - 1 - (d_last - 1 - i)) else ?buf ! i))"
      using True lt 1(2-4) by (intro 1(1)) auto
    then obtain r where
      r: "std_copy_backward_within ?buf first (last' - 1) (d_last - 1) = Inr r"
         "length r = length buf"
      and nth: "\<And>i. i < length buf \<Longrightarrow> r ! i =
          (if d_last - 1 - (last' - 1 - first) \<le> i \<and> i < d_last - 1
           then ?buf ! (last' - 1 - (d_last - 1 - i)) else ?buf ! i)"
      by auto
    have "std_copy_backward_within buf first last' d_last = Inr r"
      using True lt r by (subst std_copy_backward_within.simps) simp
    moreover have "\<forall>i<length buf. r ! i =
          (if d_last - (last' - first) \<le> i \<and> i < d_last
           then buf ! (last' - (d_last - i)) else buf ! i)"
    proof (intro allI impI)
      fix i assume i: "i < length buf"
      have eq: "d_last - 1 - (last' - 1 - first) = d_last - (last' - first)"
        using True 1(3) by arith
      consider "i < d_last - (last' - first)" | "d_last - (last' - first) \<le> i" "i < d_last - 1"
        | "i = d_last - 1" | "d_last \<le> i" using lt by linarith
      then show "r ! i = (if d_last - (last' - first) \<le> i \<and> i < d_last
           then buf ! (last' - (d_last - i)) else buf ! i)"
      proof cases
        case 1
        have ne: "d_last - 1 \<noteq> i" using 1 True by arith
        have c: "\<not> (d_last - 1 - (last' - 1 - first) \<le> i \<and> i < d_last - 1)"
          and g: "\<not> (d_last - (last' - first) \<le> i \<and> i < d_last)" using 1 eq by arith+
        have "r ! i = ?buf ! i" using nth[OF i] by (simp only: if_not_P[OF c])
        then have "r ! i = buf ! i" by (simp only: nth_list_update_neq[OF ne])
        then show ?thesis by (simp only: if_not_P[OF g])
      next
        case 2
        have idx: "last' - 1 - (d_last - 1 - i) = last' - (d_last - i)" using 2 by arith
        have ne: "d_last - 1 \<noteq> last' - (d_last - i)" using 2 1(3) by arith
        have c: "d_last - 1 - (last' - 1 - first) \<le> i \<and> i < d_last - 1"
          and g: "d_last - (last' - first) \<le> i \<and> i < d_last" using 2 eq by arith+
        have "r ! i = ?buf ! (last' - 1 - (d_last - 1 - i))"
          using nth[OF i] by (simp only: if_P[OF c])
        then have "r ! i = buf ! (last' - (d_last - i))"
          unfolding idx by (simp only: nth_list_update_neq[OF ne])
        then show ?thesis by (simp only: if_P[OF g])
      next
        case 3
        have g: "d_last - (last' - first) \<le> i \<and> i < d_last"
          and idx: "last' - (d_last - i) = last' - 1"
          and c: "\<not> (d_last - 1 - (last' - 1 - first) \<le> i \<and> i < d_last - 1)"
          using 3 True lt by arith+
        have "r ! i = ?buf ! i" using nth[OF i] by (simp only: if_not_P[OF c])
        then have "r ! i = buf ! (last' - 1)"
          unfolding 3 by (simp only: nth_list_update_eq[OF lt(2)])
        then show ?thesis unfolding idx by (simp only: if_P[OF g])
      next
        case 4
        have ne: "d_last - 1 \<noteq> i" using 4 lt by arith
        have c: "\<not> (d_last - 1 - (last' - 1 - first) \<le> i \<and> i < d_last - 1)"
          and g: "\<not> (d_last - (last' - first) \<le> i \<and> i < d_last)" using 4 by arith+
        have "r ! i = ?buf ! i" using nth[OF i] by (simp only: if_not_P[OF c])
        then have "r ! i = buf ! i" by (simp only: nth_list_update_neq[OF ne])
        then show ?thesis by (simp only: if_not_P[OF g])
      qed
    qed
    ultimately show ?thesis using r by blast
  qed
qed

lemma std_move_within_shift:
  "first = Suc d \<Longrightarrow> last' \<le> length buf \<Longrightarrow>
   \<exists>r. std_move_within buf first last' d = Inr r \<and> length r = length buf \<and>
       (\<forall>i<length buf. r ! i =
          (if d \<le> i \<and> Suc i < last' then buf ! Suc i
           else if Suc i = last' \<and> Suc d < last' then moved_from (buf ! i)
           else buf ! i))"
proof (induction buf first last' d rule: std_move_within.induct)
  case (1 buf first last' d)
  note first = \<open>first = Suc d\<close>
  show ?case
  proof (cases "first < last'")
    case False
    then show ?thesis using first by (auto simp add: std_move_within.simps)
  next
    case True
    let ?x = "buf ! first"
    let ?buf = "buf[d := ?x, first := moved_from ?x]"
    from True 1(3) first have lt: "first < length buf" "d < length buf" by auto
    have "\<exists>r. std_move_within ?buf (Suc first) last' (Suc d) = Inr r \<and>
       length r = length ?buf \<and>
       (\<forall>i<length ?buf. r ! i =
          (if Suc d \<le> i \<and> Suc i < last' then ?buf ! Suc i
           else if Suc i = last' \<and> Suc (Suc d) < last' then moved_from (?buf ! i)
           else ?buf ! i))"
      using True lt 1(3) first by (intro 1(1)) auto
    then obtain r where
      r: "std_move_within ?buf (Suc first) last' (Suc d) = Inr r" "length r = length buf"
      and nth: "\<And>i. i < length buf \<Longrightarrow> r ! i =
          (if Suc d \<le> i \<and> Suc i < last' then ?buf ! Suc i
           else if Suc i = last' \<and> Suc (Suc d) < last' then moved_from (?buf ! i)
           else ?buf ! i)"
      by auto
    have "std_move_within buf first last' d = Inr r"
      using True lt r by (subst std_move_within.simps) simp
    moreover have "\<forall>i<length buf. r ! i =
          (if d \<le> i \<and> Suc i < last' then buf ! Suc i
           else if Suc i = last' \<and> Suc d < last' then moved_from (buf ! i)
           else buf ! i)"
    proof (intro allI impI)
      fix i assume i: "i < length buf"
      consider "i < d" | "i = d" | "Suc d \<le> i" "Suc i < last'"
        | "i = Suc d" "Suc i = last'" | "Suc (Suc d) \<le> i" "Suc i = last'" | "last' \<le> i"
        by linarith
      then show "r ! i =
          (if d \<le> i \<and> Suc i < last' then buf ! Suc i
           else if Suc i = last' \<and> Suc d < last' then moved_from (buf ! i)
           else buf ! i)"
      proof cases
        case 1
        then show ?thesis using nth[OF i] True first by simp
      next
        case 2
        then show ?thesis using nth[OF i] True first lt by simp
      next
        case 3
        then show ?thesis using nth[OF i] True first by simp
      next
        case 4
        then show ?thesis using nth[OF i] True first lt by simp
      next
        case 5
        then show ?thesis using nth[OF i] True first by simp
      next
        case 6
        then show ?thesis using nth[OF i] True first by simp
      qed
    qed
    ultimately show ?thesis using r by blast
  qed
qed

lemma Insert_in_place:
  assumes wf: "wf v" and pos: "pos \<le> vsize v" and room: "vsize v < vcapacity v"
  shows "\<exists>v'. Insert pos x v = Inr (v', pos) \<and> vsize v' = vsize v + 1 \<and>
           vcapacity v' = vcapacity v \<and> length (items v') = length (items v) \<and>
           (\<forall>i<vsize v + 1. items v' ! i =
              (if i < pos then items v ! i else if i = pos then Val x else items v ! (i - 1)))"
proof -
  from wf have len: "length (items v) = vcapacity v" by (simp add: wf_def buffer_inv_def)
  have "\<exists>r. std_copy_backward_within (items v) pos (vsize v) (vsize v + 1) = Inr r \<and>
          length r = length (items v) \<and>
          (\<forall>i<length (items v). r ! i =
             (if vsize v + 1 - (vsize v - pos) \<le> i \<and> i < vsize v + 1
              then items v ! (vsize v - (vsize v + 1 - i)) else items v ! i))"
    using pos room len by (intro std_copy_backward_within_ok) auto
  then obtain r where r: "std_copy_backward_within (items v) pos (vsize v) (vsize v + 1) = Inr r"
    and lr: "length r = length (items v)"
    and nth: "\<And>i. i < length (items v) \<Longrightarrow> r ! i =
             (if vsize v + 1 - (vsize v - pos) \<le> i \<and> i < vsize v + 1
              then items v ! (vsize v - (vsize v + 1 - i)) else items v ! i)"
    by blast
  let ?v' = "v\<lparr>items := r[pos := Val x], vsize := vsize v + 1\<rparr>"
  have pl: "pos < length r" using pos room len lr by simp
  have "Insert pos x v = Inr (?v', pos)"
    using pos room r pl by (simp add: Insert_def)
  moreover have "\<forall>i<vsize v + 1. items ?v' ! i =
              (if i < pos then items v ! i else if i = pos then Val x else items v ! (i - 1))"
  proof (intro allI impI)
    fix i assume i: "i < vsize v + 1"
    then have il: "i < length (items v)" using room len by simp
    consider "i < pos" | "i = pos" | "pos < i" by linarith
    then show "items ?v' ! i =
              (if i < pos then items v ! i else if i = pos then Val x else items v ! (i - 1))"
    proof cases
      case 1
      have c: "\<not> (vsize v + 1 - (vsize v - pos) \<le> i \<and> i < vsize v + 1)"
        using 1 pos by arith
      have "r ! i = items v ! i" using nth[OF il] by (simp only: if_not_P[OF c])
      then show ?thesis using 1 by simp
    next
      case 2
      then show ?thesis using pl by simp
    next
      case 3
      have c: "vsize v + 1 - (vsize v - pos) \<le> i \<and> i < vsize v + 1"
        and idx: "vsize v - (vsize v + 1 - i) = i - 1"
        using 3 pos i by arith+
      have "r ! i = items v ! (i - 1)"
        using nth[OF il] unfolding idx by (simp only: if_P[OF c])
      then show ?thesis using 3 by simp
    qed
  qed
  ultimately show ?thesis using lr by (intro exI[of _ ?v']) simp
qed

lemma Insert_grow:
  assumes len: "vsize v \<le> length (items v)" and pos: "pos \<le> vsize v"
    and sz: "vsize v = vcapacity v"
  shows "\<exists>v'. Insert pos x v = Inr (v', pos) \<and> vsize v' = vsize v + 1 \<and>
           vcapacity v' = max 1 (2 * vcapacity v) \<and> length (items v') = vcapacity v' \<and>
           (\<forall>i<vsize v + 1. items v' ! i =
              (if i < pos then items v ! i else if i = pos then Val x else items v ! (i - 1)))"
proof -
  from sz have full: "\<not> vsize v < vcapacity v" by simp
  let ?n = "max 1 (2 * vcapacity v)"
  let ?new = "ArrayPtr_new ?n :: 'a ArrayPtr"
  have fits: "vsize v + 1 \<le> ?n" using sz by simp
  have "\<exists>r. std_copy (items v) 0 pos ?new 0 = Inr r \<and> length r = length ?new \<and>
       (\<forall>i<length ?new. r ! i =
          (if 0 \<le> i \<and> i < 0 + (pos - 0) then items v ! (0 + (i - 0)) else ?new ! i))"
    using pos sz len fits by (intro std_copy_ok) auto
  then obtain a1 where a1: "std_copy (items v) 0 pos ?new 0 = Inr a1"
    and l1: "length a1 = ?n"
    and nth1: "\<And>i. i < ?n \<Longrightarrow> a1 ! i = (if i < pos then items v ! i else ?new ! i)"
    by auto
  have "\<exists>r. std_copy_backward (items v) pos (vsize v) a1 (vsize v + 1) = Inr r \<and>
          length r = length a1 \<and>
          (\<forall>i<length a1. r ! i =
             (if vsize v + 1 - (vsize v - pos) \<le> i \<and> i < vsize v + 1
              then items v ! (vsize v - (vsize v + 1 - i)) else a1 ! i))"
    using pos sz len fits l1 by (intro std_copy_backward_ok) auto
  then obtain a2 where a2: "std_copy_backward (items v) pos (vsize v) a1 (vsize v + 1) = Inr a2"
    and l2: "length a2 = ?n"
    and nth2: "\<And>i. i < ?n \<Longrightarrow> a2 ! i =
             (if vsize v + 1 - (vsize v - pos) \<le> i \<and> i < vsize v + 1
              then items v ! (vsize v - (vsize v + 1 - i)) else a1 ! i)"
    using l1 by auto
  let ?v' = "\<lparr>items = a2[pos := Val x], vsize = vsize v + 1, vcapacity = ?n\<rparr>"
  have pl: "pos < length a2" using pos fits l2 by simp
  have "Insert pos x v = Inr (?v', pos)"
    using pos full a1 a2 pl by (simp add: Insert_def Let_def)
  moreover have "\<forall>i<vsize v + 1. items ?v' ! i =
              (if i < pos then items v ! i else if i = pos then Val x else items v ! (i - 1))"
  proof (intro allI impI)
    fix i assume i: "i < vsize v + 1"
    then have il: "i < ?n" using fits by linarith
    consider "i < pos" | "i = pos" | "pos < i" by linarith
    then show "items ?v' ! i =
              (if i < pos then items v ! i else if i = pos then Val x else items v ! (i - 1))"
    proof cases
      case 1
      have c: "\<not> (vsize v + 1 - (vsize v - pos) \<le> i \<and> i < vsize v + 1)"
        using 1 pos by arith
      have "a2 ! i = a1 ! i" using nth2[OF il] by (simp only: if_not_P[OF c])
      also have "a1 ! i = items v ! i" using nth1[OF il] by (simp only: if_P[OF 1])
      finally show ?thesis using 1 by simp
    next
      case 2
      then show ?thesis using pl by simp
    next
      case 3
      have c: "vsize v + 1 - (vsize v - pos) \<le> i \<and> i < vsize v + 1"
        and idx: "vsize v - (vsize v + 1 - i) = i - 1"
        using 3 pos i by arith+
      have "a2 ! i = items v ! (i - 1)"
        using nth2[OF il] unfolding idx by (simp only: if_P[OF c])
      then show ?thesis using 3 by simp
    qed
  qed
  ultimately show ?thesis using l2 by (intro exI[of _ ?v']) simp
qed

lemma Erase_ok:
  assumes wf: "wf v" and pos: "pos < vsize v"
  shows "\<exists>v'. Erase pos v = Inr (v', pos) \<and> vsize v' = vsize v - 1 \<and>
           vcapacity v' = vcapacity v \<and> length (items v') = length (items v) \<and>
           (\<forall>i<vsize v - 1. items v' ! i =
              (if i < pos then items v ! i else items v ! (i + 1)))"
proof -
  from wf have len: "length (items v) = vcapacity v" and le: "vsize v \<le> vcapacity v"
    by (simp_all add: wf_def buffer_inv_def)
  have "\<exists>r. std_move_within (items v) (pos + 1) (vsize v) pos = Inr r \<and>
          length r = length (items v) \<and>
          (\<forall>i<length (items v). r ! i =
             (if pos \<le> i \<and> Suc i < vsize v then items v ! Suc i
              else if Suc i = vsize v \<and> Suc pos < vsize v then moved_from (items v ! i)
              else items v ! i))"
    using le len by (intro std_move_within_shift) auto
  then obtain r where r: "std_move_within (items v) (pos + 1) (vsize v) pos = Inr r"
    and lr: "length r = length (items v)"
    and nth: "\<And>i. i < length (items v) \<Longrightarrow> r ! i =
             (if pos \<le> i \<and> Suc i < vsize v then items v ! Suc i
              else if Suc i = vsize v \<and> Suc pos < vsize v then moved_from (items v ! i)
              else items v ! i)"
    by blast
  let ?v' = "v\<lparr>items := r, vsize := vsize v - 1\<rparr>"
  have "Erase pos v = Inr (?v', pos)"
    using pos r by (simp add: Erase_def)
  moreover have "\<forall>i<vsize v - 1. items ?v' ! i =
              (if i < pos then items v ! i else items v ! (i + 1))"
  proof (intro allI impI)
    fix i assume i: "i < vsize v - 1"
    then have il: "i < length (items v)" and si: "Suc i < vsize v" using le len by simp_all
    show "items ?v' ! i = (if i < pos then items v ! i else items v ! (i + 1))"
      using nth[OF il] si by (cases "i < pos") simp_all
  qed
  ultimately show ?thesis using lr by (intro exI[of _ ?v']) simp
qed

lemma Insert_ok:
  assumes "wf v" and "pos \<le> vsize v"
  shows "\<exists>v'. Insert pos x v = Inr (v', pos) \<and> vsize v' = vsize v + 1 \<and> wf v' \<and>
           (\<forall>i<vsize v + 1. items v' ! i =
              (if i < pos then items v ! i else if i = pos then Val x else items v ! (i - 1)))"
proof (cases "vsize v < vcapacity v")
  case True
  from Insert_in_place[OF assms True, of x] obtain v' where
    v': "Insert pos x v = Inr (v', pos)" "vsize v' = vsize v + 1" "vcapacity v' = vcapacity v"
        "length (items v') = length (items v)"
        "\<forall>i<vsize v + 1. items v' ! i =
              (if i < pos then items v ! i else if i = pos then Val x else items v ! (i - 1))"
    by blast
  have "wf v'" using v'(2-4) True assms(1) by (simp add: wf_def buffer_inv_def)
  then show ?thesis using v' by blast
next
  case False
  then have full: "vsize v = vcapacity v" "vsize v \<le> length (items v)"
    using assms(1) by (simp_all add: wf_def buffer_inv_def)
  from Insert_grow[OF full(2) assms(2) full(1), of x] obtain v' where
    v': "Insert pos x v = Inr (v', pos)" "vsize v' = vsize v + 1"
        "vcapacity v' = max 1 (2 * vcapacity v)" "length (items v') = vcapacity v'"
        "\<forall>i<vsize v + 1. items v' ! i =
              (if i < pos then items v ! i else if i = pos then Val x else items v ! (i - 1))"
    by blast
  have "vsize v = vcapacity v" using False assms(1) by (simp add: wf_def)
  then have "wf v'" using v'(2-4) by (simp add: wf_def buffer_inv_def)
  then show ?thesis using v' by blast
qed

subsection \<open>Insert followed by Erase\<close>

text \<open>
  For a container that satisfies the invariant of the data model (\<open>wf\<close>) and a position
  \<open>pos\<close> with \<open>pos \<le> size\<close>, \<^verbatim>\<open>Insert\<close> at \<open>pos\<close> succeeds and returns the iterator
  \<open>pos\<close>, \<^verbatim>\<open>Erase\<close> at \<open>pos\<close> of the result succeeds, and the container then has the size
  and the sequence of live elements it had before. Nothing is said of the capacity, which
  \<^verbatim>\<open>Insert\<close> may have grown.
\<close>

lemma Insert_then_Erase_roundtrip:
  assumes "wf v" and "pos \<le> vsize v"
  shows "\<exists>v1 v2. Insert pos x v = Inr (v1, pos) \<and> Erase pos v1 = Inr (v2, pos) \<and>
           GetSize v2 = GetSize v \<and> elements v2 = elements v"
proof -
  from Insert_ok[OF assms, of x] obtain v1 where
    ins: "Insert pos x v = Inr (v1, pos)" and s1: "vsize v1 = vsize v + 1" and wf1: "wf v1"
    and n1: "\<And>i. i < vsize v + 1 \<Longrightarrow> items v1 ! i =
              (if i < pos then items v ! i else if i = pos then Val x else items v ! (i - 1))"
    by blast
  have p1: "pos < vsize v1" using assms(2) s1 by simp
  from Erase_ok[OF wf1 p1] obtain v2 where
    er: "Erase pos v1 = Inr (v2, pos)" and s2: "vsize v2 = vsize v1 - 1"
    and l2: "length (items v2) = length (items v1)"
    and n2: "\<And>i. i < vsize v1 - 1 \<Longrightarrow> items v2 ! i =
              (if i < pos then items v1 ! i else items v1 ! (i + 1))"
    by blast
  have sz: "vsize v2 = vsize v" using s1 s2 by simp
  have le: "vsize v \<le> length (items v)" using assms(1) by (simp add: wf_def buffer_inv_def)
  have le2: "vsize v \<le> length (items v2)"
    using wf1 s1 l2 by (simp add: wf_def buffer_inv_def)
  have "items v2 ! i = items v ! i" if i: "i < vsize v" for i
  proof (cases "i < pos")
    case True
    then show ?thesis using n2[of i] n1[of i] i s1 by simp
  next
    case False
    then show ?thesis using n2[of i] n1[of "i + 1"] i s1 by simp
  qed
  then have "take (vsize v) (items v2) = take (vsize v) (items v)"
    by (intro nth_take_lemma[OF le2 le]) simp
  then have "elements v2 = elements v" using sz by (simp add: elements_def)
  then show ?thesis using ins er sz by (simp add: GetSize_def)
qed

lemma Insert_then_Erase_roundtrip_example:
  "wf \<lparr>items = [Val (1::int), Val 2, Uninit], vsize = 2, vcapacity = 3\<rparr> \<and>
   1 \<le> vsize \<lparr>items = [Val (1::int), Val 2, Uninit], vsize = 2, vcapacity = 3\<rparr> \<and>
   (\<exists>v1 v2. Insert 1 9 \<lparr>items = [Val (1::int), Val 2, Uninit], vsize = 2, vcapacity = 3\<rparr>
               = Inr (v1, 1) \<and>
            Erase 1 v1 = Inr (v2, 1) \<and> GetSize v2 = 2 \<and> elements v2 = [Val 1, Val 2])"
  using Insert_then_Erase_roundtrip
    [of "\<lparr>items = [Val (1::int), Val 2, Uninit], vsize = 2, vcapacity = 3\<rparr>" 1 9]
  by (simp add: wf_def buffer_inv_def GetSize_def elements_def)


subsection \<open>Construction from a capacity hint\<close>

lemma std_copy_empty [simp]: "std_copy src first first dst d = Inr dst"
  by (simp add: std_copy.simps)

text \<open>
  Claim C3. Constructing a container from the hint \<^verbatim>\<open>Reserve(n)\<close> succeeds and gives
  an empty container (size \<open>0\<close>) whose capacity is at least \<open>n\<close>: it is exactly \<open>n\<close>, and the
  block of the constructed object itself has \<open>n\<close> slots, so the reserving call has acted on
  the object under construction.
\<close>

theorem SimpleVector_reserved_capacity:
  "\<exists>v. SimpleVector_reserved (Reserve_hint n) = Inr v \<and> GetSize v = 0 \<and> IsEmpty v \<and>
       n \<le> GetCapacity v \<and> GetCapacity v = n \<and> length (items v) = n"
  by (simp add: SimpleVector_reserved_def Reserve_hint_def Reserve_def SimpleVector_default_def
      GetSize_def GetCapacity_def IsEmpty_def ArrayPtr_new_def)

subsection \<open>Checked access\<close>

text \<open>
  For a container whose live elements lie inside its block, \<^verbatim>\<open>At(index)\<close> returns the
  live element at \<open>index\<close> when \<open>index < size\<close>, fails with \<open>OutOfRange\<close> exactly when
  \<open>index \<ge> size\<close>, and in both cases leaves the container (size, capacity and slots) as
  it was.
\<close>

lemma At_checked:
  assumes "vsize v \<le> length (items v)"
  shows "(index < GetSize v \<longrightarrow> fst (At v index) = Inr (elements v ! index)) \<and>
         (fst (At v index) = Inl OutOfRange \<longleftrightarrow> index \<ge> GetSize v) \<and>
         snd (At v index) = v"
  using assms by (auto simp add: At_def GetSize_def elements_def)

lemma At_checked_example:
  "vsize \<lparr>items = [Val (1::int), Val 2, Val 3], vsize = 3, vcapacity = 3\<rparr>
     \<le> length (items \<lparr>items = [Val (1::int), Val 2, Val 3], vsize = 3, vcapacity = 3\<rparr>) \<and>
   fst (At \<lparr>items = [Val (1::int), Val 2, Val 3], vsize = 3, vcapacity = 3\<rparr> 1) = Inr (Val 2) \<and>
   fst (At \<lparr>items = [Val (1::int), Val 2, Val 3], vsize = 3, vcapacity = 3\<rparr> 10) = Inl OutOfRange \<and>
   snd (At \<lparr>items = [Val (1::int), Val 2, Val 3], vsize = 3, vcapacity = 3\<rparr> 10)
     = \<lparr>items = [Val 1, Val 2, Val 3], vsize = 3, vcapacity = 3\<rparr>"
  using At_checked [of "\<lparr>items = [Val (1::int), Val 2, Val 3], vsize = 3, vcapacity = 3\<rparr>" 1]
    At_checked [of "\<lparr>items = [Val (1::int), Val 2, Val 3], vsize = 3, vcapacity = 3\<rparr>" 10]
  by (simp add: GetSize_def elements_def)

text \<open>
  Claim C8 says that \<^verbatim>\<open>At(index)\<close> returns the live element at \<open>index\<close> whenever
  \<open>index < size\<close>, for every container. The code at a container whose recorded capacity
  exceeds its block: the copy of the list \<^verbatim>\<open>{1, 2, 3}\<close> after \<^verbatim>\<open>PopBack()\<close> has size \<open>2\<close>,
  capacity \<open>3\<close> and a block of \<open>2\<close> slots; \<^verbatim>\<open>Resize(3)\<close> is within the recorded capacity
  and only sets the size to \<open>3\<close>; then \<^verbatim>\<open>At(2)\<close>, with \<open>2 < size\<close>, does not throw and
  reads the slot at offset \<open>2\<close>, outside the block.
\<close>

theorem At_after_copy_overruns:
  "and_then (and_then (and_then (SimpleVector_init [1, 2, 3 :: int]) PopBack) SimpleVector_copy)
     (Resize 0 3)
     = Inr \<lparr>items = [Val 1, Val 2], vsize = 3, vcapacity = 3\<rparr> \<and>
   2 < GetSize \<lparr>items = [Val (1::int), Val 2], vsize = 3, vcapacity = 3\<rparr> \<and>
   At \<lparr>items = [Val (1::int), Val 2], vsize = 3, vcapacity = 3\<rparr> 2
     = (Inl BufferOverrun, \<lparr>items = [Val 1, Val 2], vsize = 3, vcapacity = 3\<rparr>)"
  by code_simp

subsection \<open>Move construction\<close>

text \<open>
  Claim C9. Move construction from \<open>s\<close> gives a container with the block, the size and
  the capacity that \<open>s\<close> had, hence the same live elements, and leaves \<open>s\<close> with size \<open>0\<close>,
  capacity \<open>0\<close> and no block.
\<close>

theorem SimpleVector_move_transfers:
  "fst (SimpleVector_move s) = s \<and>
   elements (fst (SimpleVector_move s)) = elements s \<and>
   GetSize (fst (SimpleVector_move s)) = GetSize s \<and>
   GetCapacity (fst (SimpleVector_move s)) = GetCapacity s \<and>
   GetSize (snd (SimpleVector_move s)) = 0 \<and>
   GetCapacity (snd (SimpleVector_move s)) = 0 \<and>
   items (snd (SimpleVector_move s)) = []"
  by (simp add: SimpleVector_move_def GetSize_def GetCapacity_def elements_def ArrayPtr_new_def)

subsection \<open>Self-assignment\<close>

text \<open>
  Claim C10. Copy-assigning the container at an address to itself changes nothing: every
  object of the store, the assigned one included, keeps its size, capacity and slots.
\<close>

theorem assign_self:
  "assign this this h = Inr h"
  by (simp add: assign_def)

subsection \<open>The growth rule\<close>

lemma PushBack_in_place:
  assumes "vsize v < vcapacity v" and "buffer_inv v"
  shows "PushBack x v = Inr (v\<lparr>items := (items v)[vsize v := Val x], vsize := vsize v + 1\<rparr>)"
  using assms by (simp add: PushBack_def buffer_inv_def)

lemma PushBack_grow:
  assumes len: "vsize v \<le> length (items v)" and sz: "vsize v = vcapacity v"
  shows "\<exists>v'. PushBack x v = Inr v' \<and> vsize v' = vsize v + 1 \<and>
           vcapacity v' = max 1 (2 * vcapacity v) \<and> length (items v') = vcapacity v' \<and>
           (\<forall>i<vsize v + 1. items v' ! i = (if i < vsize v then items v ! i else Val x))"
proof -
  let ?n = "max 1 (2 * vcapacity v)"
  let ?new = "ArrayPtr_new ?n :: 'a ArrayPtr"
  have fits: "vsize v + 1 \<le> ?n" using sz by simp
  have "\<exists>r. std_copy (items v) 0 (vsize v) ?new 0 = Inr r \<and> length r = length ?new \<and>
       (\<forall>i<length ?new. r ! i =
          (if 0 \<le> i \<and> i < 0 + (vsize v - 0) then items v ! (0 + (i - 0)) else ?new ! i))"
    using len fits by (intro std_copy_ok) auto
  then obtain a1 where a1: "std_copy (items v) 0 (vsize v) ?new 0 = Inr a1"
    and l1: "length a1 = ?n"
    and nth1: "\<And>i. i < ?n \<Longrightarrow> a1 ! i = (if i < vsize v then items v ! i else ?new ! i)"
    by auto
  let ?v' = "\<lparr>items = a1[vsize v := Val x], vsize = vsize v + 1, vcapacity = ?n\<rparr>"
  have pl: "vsize v < length a1" using fits l1 by simp
  have "PushBack x v = Inr ?v'"
    using sz a1 pl by (simp add: PushBack_def Let_def)
  moreover have "\<forall>i<vsize v + 1. items ?v' ! i = (if i < vsize v then items v ! i else Val x)"
  proof (intro allI impI)
    fix i assume i: "i < vsize v + 1"
    then have il: "i < ?n" using fits by linarith
    show "items ?v' ! i = (if i < vsize v then items v ! i else Val x)"
    proof (cases "i < vsize v")
      case True
      then show ?thesis using nth1[OF il] by simp
    next
      case False
      then have "i = vsize v" using i by simp
      then show ?thesis using pl by simp
    qed
  qed
  ultimately show ?thesis using l1 by (intro exI[of _ ?v']) simp
qed

lemma Resize_grow:
  assumes len: "vsize v \<le> length (items v)" and le: "vsize v \<le> vcapacity v"
    and big: "vcapacity v < new_size"
  shows "\<exists>v'. Resize dflt new_size v = Inr v' \<and> vsize v' = new_size \<and>
           vcapacity v' = max new_size (2 * vcapacity v) \<and> length (items v') = vcapacity v' \<and>
           (\<forall>i<new_size. items v' ! i = (if i < vsize v then items v ! i else Val dflt))"
proof -
  let ?n = "max new_size (2 * vcapacity v)"
  let ?new = "ArrayPtr_new ?n :: 'a ArrayPtr"
  have fits: "vsize v \<le> ?n" "new_size \<le> ?n" using le big by simp_all
  have "\<exists>r. std_copy (items v) 0 (vsize v) ?new 0 = Inr r \<and> length r = length ?new \<and>
       (\<forall>i<length ?new. r ! i =
          (if 0 \<le> i \<and> i < 0 + (vsize v - 0) then items v ! (0 + (i - 0)) else ?new ! i))"
    using len fits by (intro std_copy_ok) auto
  then obtain a1 where a1: "std_copy (items v) 0 (vsize v) ?new 0 = Inr a1"
    and l1: "length a1 = ?n"
    and nth1: "\<And>i. i < ?n \<Longrightarrow> a1 ! i = (if i < vsize v then items v ! i else ?new ! i)"
    by auto
  have "\<exists>r. std_fill a1 (vsize v) new_size (Val dflt) = Inr r \<and> length r = length a1 \<and>
       (\<forall>i<length a1. r ! i = (if vsize v \<le> i \<and> i < new_size then Val dflt else a1 ! i))"
    using fits l1 by (intro std_fill_ok) simp
  then obtain a2 where a2: "std_fill a1 (vsize v) new_size (Val dflt) = Inr a2"
    and l2: "length a2 = ?n"
    and nth2: "\<And>i. i < ?n \<Longrightarrow> a2 ! i =
                 (if vsize v \<le> i \<and> i < new_size then Val dflt else a1 ! i)"
    using l1 by auto
  let ?v' = "\<lparr>items = a2, vsize = new_size, vcapacity = ?n\<rparr>"
  have ne: "new_size \<noteq> vsize v" "\<not> new_size < vsize v" using le big by simp_all
  have "Resize dflt new_size v = Inr ?v'"
    using ne big a1 a2 by (simp add: Resize_def Let_def)
  moreover have "\<forall>i<new_size. items ?v' ! i = (if i < vsize v then items v ! i else Val dflt)"
  proof (intro allI impI)
    fix i assume i: "i < new_size"
    then have il: "i < ?n" using fits by linarith
    show "items ?v' ! i = (if i < vsize v then items v ! i else Val dflt)"
      using nth2[OF il] nth1[OF il] i by (cases "i < vsize v") simp_all
  qed
  ultimately show ?thesis using l2 by (intro exI[of _ ?v']) simp
qed

text \<open>
  In a container whose size is at most its capacity and whose live elements lie inside
  its block, whenever \<^verbatim>\<open>PushBack\<close>, \<^verbatim>\<open>Insert\<close> (at a valid position) or \<^verbatim>\<open>Resize\<close>
  needs more than the current capacity, the call succeeds and the new capacity is the
  maximum of the required minimum and twice the current capacity, the required minimum
  being \<open>size + 1\<close> for \<^verbatim>\<open>PushBack\<close> and \<^verbatim>\<open>Insert\<close> and the new size for \<^verbatim>\<open>Resize\<close>; from
  capacity \<open>0\<close> it is the maximum of \<open>1\<close> and the required minimum.
\<close>

lemma growth_rule:
  assumes "vsize v \<le> vcapacity v" and "vsize v \<le> length (items v)"
  shows "(vcapacity v < vsize v + 1 \<longrightarrow>
            (\<exists>v'. PushBack x v = Inr v' \<and>
                  GetCapacity v' = max (vsize v + 1) (2 * vcapacity v) \<and>
                  (vcapacity v = 0 \<longrightarrow> GetCapacity v' = max 1 (vsize v + 1)))) \<and>
         (pos \<le> vsize v \<and> vcapacity v < vsize v + 1 \<longrightarrow>
            (\<exists>v'. Insert pos x v = Inr (v', pos) \<and>
                  GetCapacity v' = max (vsize v + 1) (2 * vcapacity v) \<and>
                  (vcapacity v = 0 \<longrightarrow> GetCapacity v' = max 1 (vsize v + 1)))) \<and>
         (vcapacity v < new_size \<longrightarrow>
            (\<exists>v'. Resize dflt new_size v = Inr v' \<and>
                  GetCapacity v' = max new_size (2 * vcapacity v) \<and>
                  (vcapacity v = 0 \<longrightarrow> GetCapacity v' = max 1 new_size)))"
proof (intro conjI impI)
  assume "vcapacity v < vsize v + 1"
  then have sz: "vsize v = vcapacity v" using assms(1) by simp
  from PushBack_grow[OF assms(2) sz, of x] obtain v' where
    "PushBack x v = Inr v'" "vcapacity v' = max 1 (2 * vcapacity v)" by blast
  then show "\<exists>v'. PushBack x v = Inr v' \<and>
                  GetCapacity v' = max (vsize v + 1) (2 * vcapacity v) \<and>
                  (vcapacity v = 0 \<longrightarrow> GetCapacity v' = max 1 (vsize v + 1))"
    using sz by (auto simp add: GetCapacity_def)
next
  assume "pos \<le> vsize v \<and> vcapacity v < vsize v + 1"
  then have pos: "pos \<le> vsize v" and sz: "vsize v = vcapacity v" using assms(1) by simp_all
  from Insert_grow[OF assms(2) pos sz, of x] obtain v' where
    "Insert pos x v = Inr (v', pos)" "vcapacity v' = max 1 (2 * vcapacity v)" by blast
  then show "\<exists>v'. Insert pos x v = Inr (v', pos) \<and>
                  GetCapacity v' = max (vsize v + 1) (2 * vcapacity v) \<and>
                  (vcapacity v = 0 \<longrightarrow> GetCapacity v' = max 1 (vsize v + 1))"
    using sz by (auto simp add: GetCapacity_def)
next
  assume big: "vcapacity v < new_size"
  from Resize_grow[OF assms(2) assms(1) big, of dflt] obtain v' where
    "Resize dflt new_size v = Inr v'" "vcapacity v' = max new_size (2 * vcapacity v)" by blast
  then show "\<exists>v'. Resize dflt new_size v = Inr v' \<and>
                  GetCapacity v' = max new_size (2 * vcapacity v) \<and>
                  (vcapacity v = 0 \<longrightarrow> GetCapacity v' = max 1 new_size)"
    using big by (auto simp add: GetCapacity_def)
qed

lemma growth_rule_example:
  "vsize \<lparr>items = [Val (1::int), Val 2, Val 3], vsize = 3, vcapacity = 3\<rparr> \<le> 3 \<and>
   (\<exists>v'. PushBack 4 \<lparr>items = [Val (1::int), Val 2, Val 3], vsize = 3, vcapacity = 3\<rparr> = Inr v' \<and>
         GetCapacity v' = 6) \<and>
   (\<exists>v'. Insert 1 4 \<lparr>items = [Val (1::int), Val 2, Val 3], vsize = 3, vcapacity = 3\<rparr> = Inr (v', 1) \<and>
         GetCapacity v' = 6) \<and>
   (\<exists>v'. Resize 0 7 \<lparr>items = [Val (1::int), Val 2, Val 3], vsize = 3, vcapacity = 3\<rparr> = Inr v' \<and>
         GetCapacity v' = 7) \<and>
   (\<exists>v'. PushBack (4::int) \<lparr>items = [], vsize = 0, vcapacity = 0\<rparr> = Inr v' \<and>
         GetCapacity v' = 1)"
  using growth_rule [of "\<lparr>items = [Val (1::int), Val 2, Val 3], vsize = 3, vcapacity = 3\<rparr>" 4 1 7 0]
    growth_rule [of "\<lparr>items = [], vsize = 0, vcapacity = 0\<rparr>" "4::int" 0 1 0]
  by simp


subsection \<open>Reserve followed by PushBack\<close>

lemma Reserve_ok:
  assumes "wf v"
  shows "\<exists>v'. Reserve k v = Inr v' \<and> wf v' \<and> vsize v' = vsize v \<and>
           vcapacity v' = max k (vcapacity v) \<and> elements v' = elements v"
proof (cases "k \<le> vcapacity v")
  case True
  then show ?thesis using assms by (simp add: Reserve_def max_def)
next
  case False
  from assms have len: "length (items v) = vcapacity v" and le: "vsize v \<le> vcapacity v"
    by (simp_all add: wf_def buffer_inv_def)
  let ?new = "ArrayPtr_new k :: 'a ArrayPtr"
  have "\<exists>r. std_copy (items v) 0 (vsize v) ?new 0 = Inr r \<and> length r = length ?new \<and>
       (\<forall>i<length ?new. r ! i =
          (if 0 \<le> i \<and> i < 0 + (vsize v - 0) then items v ! (0 + (i - 0)) else ?new ! i))"
    using len le False by (intro std_copy_ok) auto
  then obtain r where r: "std_copy (items v) 0 (vsize v) ?new 0 = Inr r"
    and lr: "length r = k"
    and nth: "\<And>i. i < k \<Longrightarrow> r ! i = (if i < vsize v then items v ! i else ?new ! i)"
    by auto
  let ?v' = "v\<lparr>items := r, vcapacity := k\<rparr>"
  have res: "Reserve k v = Inr ?v'" using False r by (simp add: Reserve_def)
  have "take (vsize v) r = take (vsize v) (items v)"
    using nth le False lr len by (intro nth_take_lemma) auto
  then have "elements ?v' = elements v" by (simp add: elements_def)
  moreover have "wf ?v'" using le False lr by (simp add: wf_def buffer_inv_def)
  ultimately show ?thesis using res False by (intro exI[of _ ?v']) (simp add: max_def)
qed

lemma PushBack_all_in_place:
  "wf v \<Longrightarrow> vsize v + length xs \<le> vcapacity v \<Longrightarrow>
   \<exists>v'. PushBack_all xs v = Inr v' \<and> wf v' \<and> vcapacity v' = vcapacity v \<and>
        vsize v' = vsize v + length xs"
proof (induction xs arbitrary: v)
  case Nil
  then show ?case by simp
next
  case (Cons x xs)
  let ?v1 = "v\<lparr>items := (items v)[vsize v := Val x], vsize := vsize v + 1\<rparr>"
  from Cons.prems have room: "vsize v < vcapacity v" and inv: "buffer_inv v"
    by (simp_all add: wf_def)
  have step: "PushBack x v = Inr ?v1" by (rule PushBack_in_place[OF room inv])
  have wf1: "wf ?v1" using Cons.prems by (simp add: wf_def buffer_inv_def)
  have fits: "vsize ?v1 + length xs \<le> vcapacity ?v1" using Cons.prems(2) by simp
  from Cons.IH[OF wf1 fits] obtain v' where
    "PushBack_all xs ?v1 = Inr v'" "wf v'" "vcapacity v' = vcapacity ?v1"
    "vsize v' = vsize ?v1 + length xs" by blast
  then show ?case using step by simp
qed

lemma PushBack_ok:
  assumes "wf v"
  shows "\<exists>v'. PushBack x v = Inr v' \<and> wf v' \<and> vsize v' = vsize v + 1 \<and>
           vcapacity v \<le> vcapacity v'"
proof (cases "vsize v < vcapacity v")
  case True
  then show ?thesis using assms PushBack_in_place[of v x]
    by (simp add: wf_def buffer_inv_def)
next
  case False
  then have sz: "vsize v = vcapacity v" and len: "vsize v \<le> length (items v)"
    using assms by (simp_all add: wf_def buffer_inv_def)
  from PushBack_grow[OF len sz, of x] obtain v' where
    "PushBack x v = Inr v'" "vsize v' = vsize v + 1" "vcapacity v' = max 1 (2 * vcapacity v)"
    "length (items v') = vcapacity v'" by blast
  then show ?thesis using sz by (auto simp add: wf_def buffer_inv_def)
qed

lemma PushBack_all_ok:
  "wf v \<Longrightarrow>
   \<exists>v'. PushBack_all xs v = Inr v' \<and> wf v' \<and> vcapacity v \<le> vcapacity v' \<and>
        vsize v' = vsize v + length xs"
proof (induction xs arbitrary: v)
  case Nil
  then show ?case by simp
next
  case (Cons x xs)
  from PushBack_ok[OF Cons.prems, of x] obtain v1 where
    v1: "PushBack x v = Inr v1" "wf v1" "vsize v1 = vsize v + 1" "vcapacity v \<le> vcapacity v1"
    by blast
  from Cons.IH[OF v1(2)] obtain v' where
    "PushBack_all xs v1 = Inr v'" "wf v'" "vcapacity v1 \<le> vcapacity v'"
    "vsize v' = vsize v1 + length xs" by blast
  then show ?case using v1 by simp
qed

text \<open>
  Claim C6, as the code has it. For a container that satisfies the invariant of the data
  model and a \<open>k\<close> that is at least its capacity, \<^verbatim>\<open>Reserve(k)\<close> succeeds, and so does every
  prefix of any sequence of \<^verbatim>\<open>PushBack\<close> calls that follows (of \<open>k\<close> calls in particular);
  after each prefix the capacity is at least \<open>k\<close>. As long as the size has not passed \<open>k\<close>
  the capacity is exactly \<open>k\<close>, and as long as the size is below \<open>k\<close> the next \<^verbatim>\<open>PushBack\<close>
  does not take the allocating branch: the first \<open>k - size\<close> calls, which are all \<open>k\<close> calls
  for an empty container, do not reallocate.
\<close>

theorem Reserve_then_PushBack:
  assumes "wf v" and "vcapacity v \<le> k"
  shows "\<exists>v0. Reserve k v = Inr v0 \<and>
           (\<forall>j\<le>length xs. \<exists>vj. PushBack_all (take j xs) v0 = Inr vj \<and>
               k \<le> GetCapacity vj \<and>
               (vsize v + j \<le> k \<longrightarrow> GetCapacity vj = k) \<and>
               (vsize v + j < k \<longrightarrow> \<not> PushBack_allocates vj))"
proof -
  from Reserve_ok[OF assms(1), of k] obtain v0 where
    v0: "Reserve k v = Inr v0" "wf v0" "vsize v0 = vsize v" "vcapacity v0 = k"
    using assms(2) by (auto simp add: max_def)
  have "\<exists>vj. PushBack_all (take j xs) v0 = Inr vj \<and> k \<le> GetCapacity vj \<and>
             (vsize v + j \<le> k \<longrightarrow> GetCapacity vj = k) \<and>
             (vsize v + j < k \<longrightarrow> \<not> PushBack_allocates vj)" if j: "j \<le> length xs" for j
  proof -
    have lj: "length (take j xs) = j" using j by simp
    from PushBack_all_ok[OF v0(2), of "take j xs"] obtain vj where
      vj: "PushBack_all (take j xs) v0 = Inr vj" "vcapacity v0 \<le> vcapacity vj"
          "vsize vj = vsize v0 + j" using lj by auto
    have exact: "vcapacity vj = k" if "vsize v + j \<le> k"
    proof -
      have "vsize v0 + length (take j xs) \<le> vcapacity v0" using that v0(3,4) lj by simp
      from PushBack_all_in_place[OF v0(2) this] vj(1) show ?thesis using v0(4) by auto
    qed
    have "vsize v + j < k \<longrightarrow> \<not> PushBack_allocates vj"
      using exact vj(3) v0(3) by (auto simp add: PushBack_allocates_def)
    then show ?thesis using vj v0(4) exact by (auto simp add: GetCapacity_def)
  qed
  then show ?thesis using v0(1) by blast
qed

theorem Reserve_then_PushBack_witness:
  "wf \<lparr>items = [Val (1::int), Val 2, Val 3], vsize = 3, vcapacity = 3\<rparr> \<and>
   vcapacity \<lparr>items = [Val (1::int), Val 2, Val 3], vsize = 3, vcapacity = 3\<rparr> \<le> 5 \<and>
   (\<exists>v0 v1 v2 v3.
       Reserve 5 \<lparr>items = [Val (1::int), Val 2, Val 3], vsize = 3, vcapacity = 3\<rparr> = Inr v0 \<and>
       GetCapacity v0 = 5 \<and> \<not> PushBack_allocates v0 \<and>
       PushBack_all [7] v0 = Inr v1 \<and> GetCapacity v1 = 5 \<and> \<not> PushBack_allocates v1 \<and>
       PushBack_all [7, 8] v0 = Inr v2 \<and> GetCapacity v2 = 5 \<and>
       PushBack_all [7, 8, 9] v0 = Inr v3 \<and> 5 \<le> GetCapacity v3)"
proof -
  let ?v = "\<lparr>items = [Val (1::int), Val 2, Val 3], vsize = 3, vcapacity = 3\<rparr>"
  have h: "wf ?v" "vcapacity ?v \<le> 5"
    by (simp_all add: wf_def buffer_inv_def)
  from Reserve_then_PushBack [OF h, of "[7, 8, 9]"] obtain v0 where
    v0: "Reserve 5 ?v = Inr v0"
    and all: "\<And>j. j \<le> length [7, 8, 9 :: int] \<Longrightarrow>
        \<exists>vj. PushBack_all (take j [7, 8, 9]) v0 = Inr vj \<and> 5 \<le> GetCapacity vj \<and>
             (vsize ?v + j \<le> 5 \<longrightarrow> GetCapacity vj = 5) \<and>
             (vsize ?v + j < 5 \<longrightarrow> \<not> PushBack_allocates vj)"
    by blast
  from all[of 0] have a0: "GetCapacity v0 = 5" "\<not> PushBack_allocates v0" by simp_all
  from all[of 1] obtain v1 where
    v1: "PushBack_all [7] v0 = Inr v1" "GetCapacity v1 = 5" "\<not> PushBack_allocates v1"
    by auto
  from all[of 2] obtain v2 where
    v2: "PushBack_all [7, 8] v0 = Inr v2" "GetCapacity v2 = 5"
    by auto
  from all[of 3] obtain v3 where
    v3: "PushBack_all [7, 8, 9] v0 = Inr v3" "5 \<le> GetCapacity v3"
    by auto
  show ?thesis using h v0 a0 v1 v2 v3 by blast
qed

text \<open>
  The claim as the spec states it, that none of the \<open>k\<close> calls reallocates whatever the
  container, fails for a container that is not empty: \<^verbatim>\<open>Reserve\<close> reserves total
  capacity, not room beyond the live elements. From the list \<^verbatim>\<open>{1, 2, 3}\<close> (size and
  capacity \<open>3\<close>) and \<open>k = 3\<close>, \<^verbatim>\<open>Reserve(3)\<close> changes nothing and the first \<^verbatim>\<open>PushBack\<close>
  already allocates a block of \<open>6\<close> slots.
\<close>

theorem Reserve_then_PushBack_counterexample:
  "SimpleVector_init [1, 2, 3 :: int]
     = Inr \<lparr>items = [Val 1, Val 2, Val 3], vsize = 3, vcapacity = 3\<rparr> \<and>
   vcapacity \<lparr>items = [Val (1::int), Val 2, Val 3], vsize = 3, vcapacity = 3\<rparr> \<le> 3 \<and>
   Reserve 3 \<lparr>items = [Val (1::int), Val 2, Val 3], vsize = 3, vcapacity = 3\<rparr>
     = Inr \<lparr>items = [Val 1, Val 2, Val 3], vsize = 3, vcapacity = 3\<rparr> \<and>
   PushBack_allocates \<lparr>items = [Val (1::int), Val 2, Val 3], vsize = 3, vcapacity = 3\<rparr> \<and>
   PushBack 4 \<lparr>items = [Val (1::int), Val 2, Val 3], vsize = 3, vcapacity = 3\<rparr>
     = Inr \<lparr>items = [Val 1, Val 2, Val 3, Val 4, Uninit, Uninit], vsize = 4, vcapacity = 6\<rparr>"
  by code_simp

text \<open>
  Where the recorded capacity exceeds the block, \<^verbatim>\<open>Reserve\<close> up to the recorded capacity
  changes nothing and the next \<^verbatim>\<open>PushBack\<close> writes outside the block: the copy of the list
  \<^verbatim>\<open>{1, 2, 3}\<close> after \<^verbatim>\<open>PopBack()\<close>, with \<open>k = 3\<close>.
\<close>

lemma Reserve_then_PushBack_after_copy:
  "Reserve 3 \<lparr>items = [Val (1::int), Val 2], vsize = 2, vcapacity = 3\<rparr>
     = Inr \<lparr>items = [Val 1, Val 2], vsize = 2, vcapacity = 3\<rparr> \<and>
   PushBack 7 \<lparr>items = [Val (1::int), Val 2], vsize = 2, vcapacity = 3\<rparr> = Inl BufferOverrun"
  by code_simp

subsection \<open>Copy construction\<close>

text \<open>
  What the copy constructor does for a source whose live elements lie inside its block:
  the new block has exactly \<open>size\<close> slots and holds the live elements of the source in
  order, the size is the size of the source, and the capacity is the capacity of the
  source.
\<close>

lemma SimpleVector_copy_result:
  assumes "vsize s \<le> length (items s)"
  shows "SimpleVector_copy s = Inr \<lparr>items = elements s, vsize = vsize s, vcapacity = vcapacity s\<rparr>"
proof -
  let ?new = "ArrayPtr_new (vsize s) :: 'a ArrayPtr"
  have "\<exists>r. std_copy (items s) 0 (vsize s) ?new 0 = Inr r \<and> length r = length ?new \<and>
       (\<forall>i<length ?new. r ! i =
          (if 0 \<le> i \<and> i < 0 + (vsize s - 0) then items s ! (0 + (i - 0)) else ?new ! i))"
    using assms by (intro std_copy_ok) auto
  then obtain r where r: "std_copy (items s) 0 (vsize s) ?new 0 = Inr r"
    and lr: "length r = vsize s"
    and nth: "\<And>i. i < vsize s \<Longrightarrow> r ! i = items s ! i"
    by auto
  have "r = take (vsize s) (items s)"
    using lr nth assms by (intro nth_equalityI) simp_all
  then show ?thesis using r
    by (simp add: SimpleVector_copy_def GetSize_def GetCapacity_def elements_def)
qed

text \<open>
  Claim C1 says that the copy of a source \<open>s\<close> has size and capacity both equal to the
  size of \<open>s\<close>, also when the capacity of \<open>s\<close> exceeds its size. The code at such a
  source: the list \<^verbatim>\<open>{1, 2, 3}\<close> after \<^verbatim>\<open>PopBack()\<close> has size \<open>2\<close> and capacity \<open>3\<close>;
  its copy has a block of \<open>2\<close> slots with the elements \<open>1, 2\<close> and size \<open>2\<close>, and records
  capacity \<open>3\<close>.
\<close>

theorem SimpleVector_copy_keeps_source_capacity:
  "and_then (SimpleVector_init [1, 2, 3 :: int]) PopBack
     = Inr \<lparr>items = [Val 1, Val 2, Val 3], vsize = 2, vcapacity = 3\<rparr> \<and>
   SimpleVector_copy \<lparr>items = [Val (1::int), Val 2, Val 3], vsize = 2, vcapacity = 3\<rparr>
     = Inr \<lparr>items = [Val 1, Val 2], vsize = 2, vcapacity = 3\<rparr> \<and>
   GetCapacity \<lparr>items = [Val (1::int), Val 2], vsize = 2, vcapacity = 3\<rparr> = 3 \<and>
   GetSize \<lparr>items = [Val (1::int), Val 2, Val 3], vsize = 2, vcapacity = 3\<rparr> = 2"
  by code_simp

subsection \<open>The recorded capacity and the block\<close>

text \<open>
  Claim C2 says that every constructor and every mutating operation keeps the recorded
  capacity equal to the number of slots of the block (\<open>buffer_inv\<close>). The code at the
  copy constructor: the container built from the hint \<^verbatim>\<open>Reserve(2)\<close> satisfies
  \<open>buffer_inv\<close>; its copy has a block of \<open>0\<close> slots and records capacity \<open>2\<close>, so
  \<open>buffer_inv\<close> is lost, and a \<^verbatim>\<open>PushBack\<close> on the copy writes outside the block.
\<close>

theorem SimpleVector_copy_breaks_buffer_inv:
  "SimpleVector_reserved (Reserve_hint 2)
     = Inr \<lparr>items = [Uninit, Uninit :: int slot], vsize = 0, vcapacity = 2\<rparr> \<and>
   buffer_inv \<lparr>items = [Uninit, Uninit :: int slot], vsize = 0, vcapacity = 2\<rparr> \<and>
   SimpleVector_copy \<lparr>items = [Uninit, Uninit :: int slot], vsize = 0, vcapacity = 2\<rparr>
     = Inr \<lparr>items = [], vsize = 0, vcapacity = 2\<rparr> \<and>
   \<not> buffer_inv \<lparr>items = [] :: int slot list, vsize = 0, vcapacity = 2\<rparr> \<and>
   PushBack (5::int) \<lparr>items = [], vsize = 0, vcapacity = 2\<rparr> = Inl BufferOverrun"
  by code_simp

subsection \<open>Resize\<close>

text \<open>
  A \<^verbatim>\<open>Resize\<close> to a larger size that the capacity still holds only sets the size: no
  slot is written.
\<close>

lemma Resize_within_capacity:
  assumes "vsize v < new_size" and "new_size \<le> vcapacity v"
  shows "Resize dflt new_size v = Inr (v\<lparr>vsize := new_size\<rparr>)"
  using assms by (simp add: Resize_def)

text \<open>
  Claim C5 says that after \<^verbatim>\<open>Resize(newSize)\<close> with \<open>newSize\<close> greater than the size,
  every element from the old size up to \<open>newSize\<close> is a default value, also when
  \<open>newSize\<close> is within the capacity. The code there: the list \<^verbatim>\<open>{1, 2, 3}\<close> after
  \<^verbatim>\<open>Clear()\<close> has size \<open>0\<close> and capacity \<open>3\<close>; \<^verbatim>\<open>Resize(2)\<close> with default value \<open>0\<close>
  gives the live elements \<open>1, 2\<close>.
\<close>

theorem Resize_within_capacity_keeps_old_slots:
  "SimpleVector_init [1, 2, 3 :: int]
     = Inr \<lparr>items = [Val 1, Val 2, Val 3], vsize = 3, vcapacity = 3\<rparr> \<and>
   Clear \<lparr>items = [Val (1::int), Val 2, Val 3], vsize = 3, vcapacity = 3\<rparr>
     = \<lparr>items = [Val 1, Val 2, Val 3], vsize = 0, vcapacity = 3\<rparr> \<and>
   Resize 0 2 \<lparr>items = [Val (1::int), Val 2, Val 3], vsize = 0, vcapacity = 3\<rparr>
     = Inr \<lparr>items = [Val 1, Val 2, Val 3], vsize = 2, vcapacity = 3\<rparr> \<and>
   elements \<lparr>items = [Val (1::int), Val 2, Val 3], vsize = 2, vcapacity = 3\<rparr> = [Val 1, Val 2]"
  by code_simp

subsection \<open>The constructors and operations that keep the invariant\<close>

text \<open>
  Every constructor other than the copy constructor builds a container that satisfies
  \<open>wf\<close>, and every operation, called on a container that satisfies \<open>wf\<close> and within its
  asserted precondition, succeeds and returns one that satisfies \<open>wf\<close>. (\<^verbatim>\<open>Reserve\<close> and
  \<^verbatim>\<open>Insert\<close> are covered by \<open>Reserve_ok\<close> and \<open>Insert_ok\<close>.)
\<close>

lemma wf_default: "wf SimpleVector_default"
  by (simp add: wf_def buffer_inv_def SimpleVector_default_def)

lemma std_fill_new:
  fixes x :: "'a slot"
  shows "std_fill (ArrayPtr_new n) 0 n x = Inr (replicate n x)"
proof -
  let ?new = "ArrayPtr_new n :: 'a ArrayPtr"
  have "\<exists>r. std_fill ?new 0 n x = Inr r \<and> length r = length ?new \<and>
       (\<forall>i<length ?new. r ! i = (if 0 \<le> i \<and> i < n then x else ?new ! i))"
    by (intro std_fill_ok) simp
  then obtain r where r: "std_fill ?new 0 n x = Inr r" "length r = n"
    and nth: "\<And>i. i < n \<Longrightarrow> r ! i = x" by auto
  have "r = replicate n x" using r(2) nth by (intro nth_equalityI) simp_all
  then show ?thesis using r(1) by simp
qed

lemma SimpleVector_sized_wf:
  "SimpleVector_sized dflt n = Inr \<lparr>items = replicate n (Val dflt), vsize = n, vcapacity = n\<rparr> \<and>
   wf \<lparr>items = replicate n (Val dflt), vsize = n, vcapacity = n\<rparr>"
  using std_fill_new[of n "Val dflt"]
  by (auto simp add: SimpleVector_sized_def wf_def buffer_inv_def)

lemma SimpleVector_filled_wf:
  "SimpleVector_filled n val = Inr \<lparr>items = replicate n (Val val), vsize = n, vcapacity = n\<rparr> \<and>
   wf \<lparr>items = replicate n (Val val), vsize = n, vcapacity = n\<rparr>"
  using std_fill_new[of n "Val val"]
  by (auto simp add: SimpleVector_filled_def wf_def buffer_inv_def)

lemma SimpleVector_init_wf:
  "SimpleVector_init init
     = Inr \<lparr>items = map Val init, vsize = length init, vcapacity = length init\<rparr> \<and>
   wf \<lparr>items = map Val init, vsize = length init, vcapacity = length init\<rparr>"
proof -
  let ?n = "length init"
  let ?new = "ArrayPtr_new ?n :: 'a ArrayPtr"
  have "\<exists>r. std_copy (map Val init) 0 ?n ?new 0 = Inr r \<and> length r = length ?new \<and>
       (\<forall>i<length ?new. r ! i =
          (if 0 \<le> i \<and> i < 0 + (?n - 0) then map Val init ! (0 + (i - 0)) else ?new ! i))"
    by (intro std_copy_ok) auto
  then obtain r where r: "std_copy (map Val init) 0 ?n ?new 0 = Inr r" "length r = ?n"
    and nth: "\<And>i. i < ?n \<Longrightarrow> r ! i = map Val init ! i" by auto
  have "r = map Val init" using r(2) nth by (intro nth_equalityI) simp_all
  then show ?thesis using r(1) by (simp add: SimpleVector_init_def wf_def buffer_inv_def)
qed

lemma SimpleVector_reserved_wf:
  "\<exists>v. SimpleVector_reserved (Reserve_hint n) = Inr v \<and> wf v"
  by (simp add: SimpleVector_reserved_def Reserve_hint_def Reserve_def SimpleVector_default_def
      wf_def buffer_inv_def)

lemma SimpleVector_move_wf:
  "wf s \<Longrightarrow> wf (fst (SimpleVector_move s)) \<and> wf (snd (SimpleVector_move s))"
  by (simp add: SimpleVector_move_def wf_def buffer_inv_def)

lemma Clear_wf: "wf v \<Longrightarrow> wf (Clear v)"
  by (simp add: Clear_def wf_def buffer_inv_def)

lemma swap_v_wf: "wf a \<Longrightarrow> wf b \<Longrightarrow> wf (fst (swap_v (a, b))) \<and> wf (snd (swap_v (a, b)))"
  by (simp add: swap_v_def wf_def buffer_inv_def)

lemma PushBack_wf:
  assumes "wf v"
  shows "\<exists>v'. PushBack x v = Inr v' \<and> wf v' \<and> vsize v' = vsize v + 1"
  using PushBack_ok[OF assms, of x] by blast

lemma Erase_wf:
  assumes "wf v" and "pos < vsize v"
  shows "\<exists>v'. Erase pos v = Inr (v', pos) \<and> wf v' \<and> vsize v' = vsize v - 1"
proof -
  from Erase_ok[OF assms] obtain v' where
    "Erase pos v = Inr (v', pos)" "vsize v' = vsize v - 1" "vcapacity v' = vcapacity v"
    "length (items v') = length (items v)" by blast
  then show ?thesis using assms(1) by (auto simp add: wf_def buffer_inv_def)
qed

lemma PopBack_wf:
  assumes "wf v" and "\<not> IsEmpty v"
  shows "\<exists>v'. PopBack v = Inr v' \<and> wf v' \<and> vsize v' = vsize v - 1"
proof -
  have "vsize v - 1 < vsize v" using assms(2) by (simp add: IsEmpty_def)
  from Erase_wf[OF assms(1) this] show ?thesis using assms(2) by (auto simp add: PopBack_def)
qed

lemma Resize_wf:
  assumes "wf v"
  shows "\<exists>v'. Resize dflt new_size v = Inr v' \<and> wf v' \<and> vsize v' = new_size"
proof -
  from assms have len: "length (items v) = vcapacity v" and le: "vsize v \<le> vcapacity v"
    by (simp_all add: wf_def buffer_inv_def)
  consider "new_size = vsize v" | "new_size < vsize v"
    | "vsize v < new_size" "new_size \<le> vcapacity v" | "vcapacity v < new_size"
    by linarith
  then show ?thesis
  proof cases
    case 1
    then show ?thesis using assms by (simp add: Resize_def)
  next
    case 2
    have "\<exists>r. std_fill (items v) new_size (vsize v) (Val dflt) = Inr r \<and>
            length r = length (items v) \<and>
            (\<forall>i<length (items v). r ! i =
               (if new_size \<le> i \<and> i < vsize v then Val dflt else items v ! i))"
      using len le by (intro std_fill_ok) simp
    then obtain r where "std_fill (items v) new_size (vsize v) (Val dflt) = Inr r"
      "length r = length (items v)" by blast
    then show ?thesis using 2 len le by (simp add: Resize_def wf_def buffer_inv_def)
  next
    case 3
    then show ?thesis using assms Resize_within_capacity[OF 3, of dflt]
      by (simp add: wf_def buffer_inv_def)
  next
    case 4
    have "vsize v \<le> length (items v)" using len le by simp
    from Resize_grow[OF this le 4, of dflt] obtain v' where
      "Resize dflt new_size v = Inr v'" "vsize v' = new_size"
      "vcapacity v' = max new_size (2 * vcapacity v)" "length (items v') = vcapacity v'"
      by blast
    then show ?thesis by (auto simp add: wf_def buffer_inv_def)
  qed
qed

end
